theory Spec2Isabelle
  imports Complex_Main "HOL-Library.AList"
begin

section \<open>The in-memory rate limiter (middleware/rateLimiter.js)\<close>

text \<open>
  The class \<open>RateLimiter\<close> keeps one JavaScript \<open>Map\<close> from client identifiers to
  window records. A \<open>Map\<close> holds each key once and iterates in insertion order;
  \<open>set\<close> on a present key replaces the value in place and on a new key appends. It is
  modelled as an association list read with \<open>map_of\<close>, written with \<open>AList.update\<close>
  and pruned with \<open>AList.delete\<close>, which behave the same way.

  \<open>Date.now()\<close> is an input of the environment: every method takes the current time
  (integer milliseconds) as the argument \<open>now\<close>; nothing is assumed about successive
  readings. Counts, times and limits are JavaScript numbers holding integers, modelled as
  \<open>int\<close>; \<open>Math.ceil(x / 1000)\<close> is the ceiling of the real quotient. A window record
  is an object reachable from its map slot only, so it is held by value.
\<close>

record entry =
  count :: int
  resetTime :: int
  firstRequest :: int

type_synonym store = "(string \<times> entry) list"

text \<open>
  The record of an instance. The field \<open>requests\<close> is the \<open>Map\<close> itself where one
  instance is studied on its own (\<open>store RateLimiter\<close>), and the address of the
  \<open>Map\<close> object where several instances live in one heap (\<open>nat RateLimiter\<close>).
\<close>

record 'm RateLimiter =
  windowMs :: int
  maxRequests :: int
  requests :: 'm

text \<open>
  The object returned by \<open>isAllowed\<close>. The two allowing shapes of the source carry no
  \<open>retryAfter\<close> and no \<open>resetTime\<close> property (\<open>None\<close> here); the result's
  \<open>resetTime\<close> is named \<open>resetTime_res\<close> to keep it apart from the entry's field.
\<close>

record result =
  allowed :: bool
  remaining :: int
  retryAfter :: "int option"
  resetTime_res :: "int option"

subsection \<open>cleanup\<close>

text \<open>
  The \<open>for ... of this.requests.entries()\<close> loop: each visited pair whose
  \<open>now - data.resetTime\<close> exceeds \<open>windowMs\<close> is deleted from the map. The first list
  is what remains to be visited, the second the map being pruned. Deleting the pair being
  visited does not disturb the iteration of a \<open>Map\<close> and, a key occurring once, takes
  away no pair still to be visited.
\<close>

fun cleanup_loop :: "int \<Rightarrow> int \<Rightarrow> store \<Rightarrow> store \<Rightarrow> store" where
  "cleanup_loop now w [] m = m"
| "cleanup_loop now w ((key, data) # rest) m =
     cleanup_loop now w rest
       (if now - resetTime data > w then AList.delete key m else m)"

definition cleanup :: "store RateLimiter \<Rightarrow> int \<Rightarrow> store RateLimiter" where
  "cleanup this now =
     this\<lparr>requests := cleanup_loop now (windowMs this) (requests this) (requests this)\<rparr>"

subsection \<open>isAllowed\<close>

definition isAllowed :: "store RateLimiter \<Rightarrow> string \<Rightarrow> int \<Rightarrow> result \<times> store RateLimiter" where
  "isAllowed this identifier now =
     (case map_of (requests this) identifier of
        None \<Rightarrow>
          (\<lparr>allowed = True, remaining = maxRequests this - 1,
            retryAfter = None, resetTime_res = None\<rparr>,
           this\<lparr>requests := AList.update identifier
              \<lparr>count = 1, resetTime = now, firstRequest = now\<rparr> (requests this)\<rparr>)
      | Some data \<Rightarrow>
          if now - firstRequest data > windowMs this then
            (\<lparr>allowed = True, remaining = maxRequests this - 1,
              retryAfter = None, resetTime_res = None\<rparr>,
             this\<lparr>requests := AList.update identifier
                \<lparr>count = 1, resetTime = now, firstRequest = now\<rparr> (requests this)\<rparr>)
          else if count data \<ge> maxRequests this then
            (\<lparr>allowed = False, remaining = 0,
              retryAfter = Some \<lceil>real_of_int (windowMs this - (now - firstRequest data)) / 1000\<rceil>,
              resetTime_res = Some (firstRequest data + windowMs this)\<rparr>,
             this)
          else
            (\<lparr>allowed = True, remaining = maxRequests this - (count data + 1),
              retryAfter = None, resetTime_res = None\<rparr>,
             this\<lparr>requests := AList.update identifier
                (data\<lparr>count := count data + 1\<rparr>) (requests this)\<rparr>))"

subsection \<open>Runs of one instance\<close>

text \<open>
  A client calling \<open>isAllowed\<close> for the same identifier at the given times, one call
  after the other; the results are collected in call order.
\<close>

fun isAllowed_calls ::
  "store RateLimiter \<Rightarrow> string \<Rightarrow> int list \<Rightarrow> result list \<times> store RateLimiter" where
  "isAllowed_calls this identifier [] = ([], this)"
| "isAllowed_calls this identifier (now # later) =
     (let (r, this') = isAllowed this identifier now;
          (rs, this'') = isAllowed_calls this' identifier later
      in (r # rs, this''))"

text \<open>
  A call at time \<open>now\<close> starts a window for the identifier when \<open>isAllowed\<close> takes one
  of its two entry-creating paths: the identifier is not in the map, or its window is over.
\<close>

definition opens_window :: "store RateLimiter \<Rightarrow> string \<Rightarrow> int \<Rightarrow> bool" where
  "opens_window this identifier now =
     (case map_of (requests this) identifier of
        None \<Rightarrow> True
      | Some data \<Rightarrow> now - firstRequest data > windowMs this)"

text \<open>
  The states an instance can be in: the constructor leaves the map empty, and from then
  on only \<open>isAllowed\<close> (any identifier, any clock reading) and the timer-driven
  \<open>cleanup\<close> (any clock reading) touch it.
\<close>

inductive reachable :: "store RateLimiter \<Rightarrow> bool" where
  constructed: "requests this = [] \<Longrightarrow> reachable this"
| called: "reachable this \<Longrightarrow> reachable (snd (isAllowed this identifier now))"
| swept: "reachable this \<Longrightarrow> reachable (cleanup this now)"

definition count_bounded :: "store RateLimiter \<Rightarrow> bool" where
  "count_bounded this =
     list_all (\<lambda>(key, data). 1 \<le> count data \<and> count data \<le> maxRequests this) (requests this)"

section \<open>Instances in one heap, and the middleware\<close>

text \<open>
  Each \<open>new RateLimiter(...)\<close> evaluates \<open>new Map()\<close>. To make explicit which
  instance writes to which map, the \<open>Map\<close> objects live in a heap of cells with an
  allocation pointer, and an instance holds the address of its map.
\<close>

record heap =
  cells :: "nat \<Rightarrow> store"
  next_addr :: nat

definition new_Map :: "heap \<Rightarrow> nat \<times> heap" where
  "new_Map h =
     (next_addr h, h\<lparr>cells := (cells h)(next_addr h := []), next_addr := next_addr h + 1\<rparr>)"

text \<open>
  The constructor; an argument left out (\<open>None\<close>) takes the default of the signature,
  \<open>15 * 60 * 1000\<close> and \<open>100\<close>. The \<open>setInterval\<close> it registers is the
  environment calling \<open>cleanup\<close> later.
\<close>

definition new_RateLimiter :: "int option \<Rightarrow> int option \<Rightarrow> heap \<Rightarrow> nat RateLimiter \<times> heap" where
  "new_RateLimiter windowMs_arg maxRequests_arg h =
     (let (a, h') = new_Map h
      in (\<lparr>windowMs = (case windowMs_arg of None \<Rightarrow> 15 * 60 * 1000 | Some w \<Rightarrow> w),
           maxRequests = (case maxRequests_arg of None \<Rightarrow> 100 | Some m \<Rightarrow> m),
           requests = a\<rparr>, h'))"

definition load :: "heap \<Rightarrow> nat RateLimiter \<Rightarrow> store RateLimiter" where
  "load h this =
     \<lparr>windowMs = windowMs this, maxRequests = maxRequests this,
      requests = cells h (requests this)\<rparr>"

definition isAllowed_obj :: "nat RateLimiter \<Rightarrow> string \<Rightarrow> int \<Rightarrow> heap \<Rightarrow> result \<times> heap" where
  "isAllowed_obj this identifier now h =
     (let (r, this') = isAllowed (load h this) identifier now
      in (r, h\<lparr>cells := (cells h)(requests this := requests this')\<rparr>))"

definition cleanup_obj :: "nat RateLimiter \<Rightarrow> int \<Rightarrow> heap \<Rightarrow> heap" where
  "cleanup_obj this now h =
     h\<lparr>cells := (cells h)(requests this := requests (cleanup (load h this) now))\<rparr>"

text \<open>The heap after a client has called \<open>isAllowed\<close> on one instance at the given times.\<close>

fun isAllowed_obj_calls :: "nat RateLimiter \<Rightarrow> string \<Rightarrow> int list \<Rightarrow> heap \<Rightarrow> heap" where
  "isAllowed_obj_calls this identifier [] h = h"
| "isAllowed_obj_calls this identifier (now # later) h =
     isAllowed_obj_calls this identifier later (snd (isAllowed_obj this identifier now h))"

text \<open>The two module-level instances, constructed in this order when the module loads.\<close>

record limiters =
  generalLimiter :: "nat RateLimiter"
  strictLimiter :: "nat RateLimiter"

definition module_init :: "heap \<Rightarrow> limiters \<times> heap" where
  "module_init h =
     (let (g, h1) = new_RateLimiter (Some (15 * 60 * 1000)) (Some 100) h;
          (s, h2) = new_RateLimiter (Some (60 * 1000)) (Some 10) h1
      in (\<lparr>generalLimiter = g, strictLimiter = s\<rparr>, h2))"

text \<open>
  What the middleware reads of the request. A property that is \<open>undefined\<close> (or whose
  parent object is missing, for the \<open>?.\<close> accesses) is \<open>None\<close>;
  \<open>req_method\<close> is \<open>req.method\<close>.
\<close>

record request =
  req_method :: string
  ip :: "string option"
  connection_remoteAddress :: "string option"
  socket_remoteAddress :: "string option"
  x_forwarded_for :: "string option"

text \<open>The chain \<open>a || b || ... || 'unknown'\<close>: the empty string is falsy, as \<open>undefined\<close> is.\<close>

fun first_truthy :: "string option list \<Rightarrow> string \<Rightarrow> string" where
  "first_truthy [] d = d"
| "first_truthy (None # xs) d = first_truthy xs d"
| "first_truthy (Some s # xs) d = (if s = [] then first_truthy xs d else s)"

definition client_identifier :: "request \<Rightarrow> string" where
  "client_identifier req =
     first_truthy
       [ip req, connection_remoteAddress req, socket_remoteAddress req,
        map_option (takeWhile (\<lambda>c. c \<noteq> CHR '','')) (x_forwarded_for req)]
       ''unknown''"

text \<open>
  The response headers written by \<open>res.set\<close>, and what the middleware hands to
  \<open>next\<close>: nothing, or an \<open>AppError\<close> with its message and status code.
\<close>

type_synonym response = "(string \<times> int) list"

fun res_set :: "(string \<times> int) list \<Rightarrow> response \<Rightarrow> response" where
  "res_set [] res = res"
| "res_set ((name, v) # others) res = res_set others (AList.update name v res)"

datatype next_arg = Next | NextError string int

definition rateLimiter ::
  "limiters \<Rightarrow> request \<Rightarrow> response \<Rightarrow> int \<Rightarrow> heap \<Rightarrow> next_arg \<times> response \<times> heap" where
  "rateLimiter M req res now h =
     (let identifier = client_identifier req;
          (result, h') = isAllowed_obj (generalLimiter M) identifier now h;
          res' = res_set
            [(''X-RateLimit-Limit'', maxRequests (generalLimiter M)),
             (''X-RateLimit-Remaining'', remaining result),
             (''X-RateLimit-Window'', \<lceil>real_of_int (windowMs (generalLimiter M)) / 1000\<rceil>)] res
      in if \<not> allowed result then
           (NextError ''Too many requests. Please try again later.'' 429,
            (case retryAfter result of
               Some s \<Rightarrow> res_set [(''Retry-After'', s)] res'
             | None \<Rightarrow> res'),
            h')
         else (Next, res', h'))"

definition strictRateLimiter ::
  "limiters \<Rightarrow> request \<Rightarrow> response \<Rightarrow> int \<Rightarrow> heap \<Rightarrow> next_arg \<times> response \<times> heap" where
  "strictRateLimiter M req res now h =
     (if req_method req \<notin> set [''POST'', ''PUT'', ''PATCH'', ''DELETE''] then (Next, res, h)
      else
        let identifier = client_identifier req;
            (result, h') = isAllowed_obj (strictLimiter M) identifier now h;
            res' = res_set
              [(''X-RateLimit-Strict-Limit'', maxRequests (strictLimiter M)),
               (''X-RateLimit-Strict-Remaining'', remaining result),
               (''X-RateLimit-Strict-Window'', \<lceil>real_of_int (windowMs (strictLimiter M)) / 1000\<rceil>)] res
        in if \<not> allowed result then
             (NextError ''Too many write requests. Please slow down.'' 429,
              (case retryAfter result of
                 Some s \<Rightarrow> res_set [(''Retry-After'', s)] res'
               | None \<Rightarrow> res'),
              h')
           else (Next, res', h'))"

section \<open>Example states\<close>

text \<open>
  The strict configuration of the module (one minute, ten requests) before any request and
  after one client has called eleven times within the first second; a one-second limiter of
  capacity one after a request of \<open>a\<close> at time 0 and of \<open>b\<close> at time 800; the heap
  before the module is loaded, the module once loaded, and a read request.
\<close>

definition strict_fresh :: "store RateLimiter" where
  "strict_fresh = \<lparr>windowMs = 60 * 1000, maxRequests = 10, requests = []\<rparr>"

definition strict_exhausted :: "store RateLimiter" where
  "strict_exhausted =
     snd (isAllowed_calls strict_fresh ''1.2.3.4'' [0, 100, 200, 300, 400, 500, 600, 700, 800, 900, 950])"

definition short_fresh :: "store RateLimiter" where
  "short_fresh = \<lparr>windowMs = 1000, maxRequests = 1, requests = []\<rparr>"

definition short_one :: "store RateLimiter" where
  "short_one = snd (isAllowed short_fresh ''a'' 0)"

definition short_two :: "store RateLimiter" where
  "short_two = snd (isAllowed short_one ''b'' 800)"

definition empty_heap :: heap where
  "empty_heap = \<lparr>cells = (\<lambda>a. []), next_addr = 0\<rparr>"

definition loaded_module :: "limiters \<times> heap" where
  "loaded_module = module_init empty_heap"

definition get_request :: request where
  "get_request = \<lparr>req_method = ''GET'', ip = Some ''1.2.3.4'', connection_remoteAddress = None,
      socket_remoteAddress = None, x_forwarded_for = None\<rparr>"

section \<open>Auxiliary facts\<close>

subsection \<open>Single calls\<close>

lemma isAllowed_config:
  "windowMs (snd (isAllowed this identifier now)) = windowMs this"
  "maxRequests (snd (isAllowed this identifier now)) = maxRequests this"
  by (simp_all add: isAllowed_def split: option.splits)

lemma cleanup_config:
  "windowMs (cleanup this now) = windowMs this"
  "maxRequests (cleanup this now) = maxRequests this"
  by (simp_all add: cleanup_def)

lemma isAllowed_opens_window:
  assumes "opens_window this identifier now"
  shows "isAllowed this identifier now =
           (\<lparr>allowed = True, remaining = maxRequests this - 1,
             retryAfter = None, resetTime_res = None\<rparr>,
            this\<lparr>requests := AList.update identifier
               \<lparr>count = 1, resetTime = now, firstRequest = now\<rparr> (requests this)\<rparr>)"
  using assms by (auto simp: isAllowed_def opens_window_def split: option.splits)

lemma isAllowed_denied:
  assumes "map_of (requests this) identifier = Some data"
    and "count data \<ge> maxRequests this"
    and "now - firstRequest data \<le> windowMs this"
  shows "isAllowed this identifier now =
           (\<lparr>allowed = False, remaining = 0,
             retryAfter = Some \<lceil>real_of_int (windowMs this - (now - firstRequest data)) / 1000\<rceil>,
             resetTime_res = Some (firstRequest data + windowMs this)\<rparr>, this)"
  using assms by (simp add: isAllowed_def)

lemma retry_sign:
  "0 \<le> d \<Longrightarrow> 0 \<le> \<lceil>real_of_int d / 1000\<rceil>"
  "0 < \<lceil>real_of_int d / 1000\<rceil> \<longleftrightarrow> 0 < d"
  by (simp_all add: zero_less_ceiling zero_le_ceiling)

subsection \<open>The cleanup loop is a filter\<close>

lemma cleanup_loop_filter:
  "cleanup_loop now w xs m =
     filter (\<lambda>(key, data). key \<notin> fst ` {p \<in> set xs. now - resetTime (snd p) > w}) m"
proof (induction xs arbitrary: m)
  case Nil
  then show ?case by simp
next
  case (Cons p xs)
  obtain key data where p: "p = (key, data)" by (cases p)
  let ?E = "\<lambda>ys. fst ` {q \<in> set ys. now - resetTime (snd q) > w}"
  have E: "?E (p # xs) = (if now - resetTime data > w then insert key (?E xs) else ?E xs)"
    unfolding p by force
  show ?case
    unfolding E unfolding p by (auto simp: Cons.IH AList.delete_eq intro!: filter_cong)
qed

lemma cleanup_loop_self:
  assumes "distinct (map fst m)"
  shows "cleanup_loop now w m m = filter (\<lambda>(key, data). \<not> now - resetTime data > w) m"
proof -
  have "key \<in> fst ` {p \<in> set m. now - resetTime (snd p) > w} \<longleftrightarrow> now - resetTime data > w"
    if "(key, data) \<in> set m" for key data
  proof
    assume "key \<in> fst ` {p \<in> set m. now - resetTime (snd p) > w}"
    then obtain data' where d: "(key, data') \<in> set m" "now - resetTime data' > w"
      by auto
    from eq_key_imp_eq_value [OF assms d(1) that] d(2) show "now - resetTime data > w"
      by simp
  next
    assume "now - resetTime data > w"
    with that show "key \<in> fst ` {p \<in> set m. now - resetTime (snd p) > w}"
      by force
  qed
  then show ?thesis
    unfolding cleanup_loop_filter by (intro filter_cong) auto
qed

lemma map_of_filter_distinct_keys:
  "distinct (map fst m) \<Longrightarrow>
   map_of (filter P m) k =
     (case map_of m k of None \<Rightarrow> None | Some d \<Rightarrow> if P (k, d) then Some d else None)"
proof (induction m)
  case Nil
  then show ?case by simp
next
  case (Cons p m)
  obtain k' d' where p: "p = (k', d')" by (cases p)
  from Cons.prems have notin: "k' \<notin> fst ` set m" and dm: "distinct (map fst m)"
    by (auto simp: p)
  have none: "map_of m k' = None"
    using notin by (simp add: map_of_eq_None_iff)
  show ?case
    using Cons.IH [OF dm] none by (auto simp: p split: option.splits)
qed

lemma in_set_updateD:
  "p \<in> set (AList.update k v al) \<Longrightarrow> p = (k, v) \<or> p \<in> set al"
  by (induction al) (auto split: if_splits)

subsection \<open>What holds in every reachable state\<close>

text \<open>
  Keys are unique, as in a \<open>Map\<close>, and the two time stamps of an entry agree: both are
  set to the same clock reading whenever an entry is written, and the increment keeps them.
\<close>

lemma reachable_distinct: "reachable this \<Longrightarrow> distinct (map fst (requests this))"
proof (induction rule: reachable.induct)
  case (constructed L)
  then show ?case by simp
next
  case (called L ident t)
  then show ?case
    by (auto simp: isAllowed_def distinct_update split: option.splits)
next
  case (swept L t)
  then show ?case
    by (simp add: cleanup_def cleanup_loop_filter distinct_map_filter)
qed

lemma reachable_times:
  "reachable this \<Longrightarrow> (key, data) \<in> set (requests this) \<Longrightarrow> resetTime data = firstRequest data"
proof (induction arbitrary: key data rule: reachable.induct)
  case (constructed L)
  then show ?case by simp
next
  case (called L ident t)
  then show ?case
    by (fastforce simp: isAllowed_def split: option.splits if_splits dest!: in_set_updateD dest: map_of_SomeD)
next
  case (swept L t)
  then show ?case
    by (auto simp: cleanup_def cleanup_loop_filter)
qed

lemma cleanup_requests:
  assumes "reachable this"
  shows "requests (cleanup this now) =
           filter (\<lambda>(key, data). \<not> now - resetTime data > windowMs this) (requests this)"
  by (simp add: cleanup_def cleanup_loop_self [OF reachable_distinct [OF assms]])

lemma cleanup_lookup:
  assumes "reachable this"
  shows "map_of (requests (cleanup this now)) key =
           (case map_of (requests this) key of
              None \<Rightarrow> None
            | Some data \<Rightarrow> if now - firstRequest data > windowMs this then None else Some data)"
proof (cases "map_of (requests this) key")
  case None
  then show ?thesis
    by (simp add: cleanup_requests [OF assms]
        map_of_filter_distinct_keys [OF reachable_distinct [OF assms]])
next
  case (Some data)
  then have "(key, data) \<in> set (requests this)" by (rule map_of_SomeD)
  then have "resetTime data = firstRequest data" by (rule reachable_times [OF assms])
  with Some show ?thesis
    by (simp add: cleanup_requests [OF assms]
        map_of_filter_distinct_keys [OF reachable_distinct [OF assms]])
qed

lemma isAllowed_count_bounded:
  assumes "1 \<le> maxRequests this" "count_bounded this"
  shows "count_bounded (snd (isAllowed this identifier now))"
proof -
  have "1 \<le> count d \<and> count d \<le> maxRequests this"
    if "(k, d) \<in> set (requests (snd (isAllowed this identifier now)))" for k d
  proof (cases "map_of (requests this) identifier")
    case None
    with that assms show ?thesis
      by (auto simp: isAllowed_def count_bounded_def list_all_iff dest!: in_set_updateD)
  next
    case (Some data)
    then have "(identifier, data) \<in> set (requests this)" by (rule map_of_SomeD)
    with assms have "1 \<le> count data" by (auto simp: count_bounded_def list_all_iff)
    with that assms Some show ?thesis
      by (auto simp: isAllowed_def count_bounded_def list_all_iff split: if_splits dest!: in_set_updateD)
  qed
  then show ?thesis
    by (auto simp: count_bounded_def list_all_iff isAllowed_config)
qed

lemma cleanup_count_bounded:
  "count_bounded this \<Longrightarrow> count_bounded (cleanup this now)"
  by (auto simp: count_bounded_def list_all_iff cleanup_def cleanup_loop_filter)

lemma reachable_count_bounded:
  "reachable this \<Longrightarrow> 1 \<le> maxRequests this \<Longrightarrow> count_bounded this"
proof (induction rule: reachable.induct)
  case (constructed L)
  then show ?case by (simp add: count_bounded_def)
next
  case (called L ident t)
  then show ?case by (simp add: isAllowed_config isAllowed_count_bounded)
next
  case (swept L t)
  then show ?case by (simp add: cleanup_config cleanup_count_bounded)
qed

subsection \<open>Runs inside one window\<close>

lemma isAllowed_calls_within_window:
  assumes "map_of (requests this) identifier = Some data"
    and "\<forall>t\<in>set ts. t - firstRequest data \<le> windowMs this"
    and "count data + int (length ts) \<le> maxRequests this"
  shows "fst (isAllowed_calls this identifier ts) =
           map (\<lambda>i. \<lparr>allowed = True, remaining = maxRequests this - (count data + int i + 1),
                      retryAfter = None, resetTime_res = None\<rparr>) [0..<length ts]
         \<and> map_of (requests (snd (isAllowed_calls this identifier ts))) identifier =
             Some (data\<lparr>count := count data + int (length ts)\<rparr>)
         \<and> windowMs (snd (isAllowed_calls this identifier ts)) = windowMs this
         \<and> maxRequests (snd (isAllowed_calls this identifier ts)) = maxRequests this"
  using assms
proof (induction ts arbitrary: this data)
  case Nil
  then show ?case by simp
next
  case (Cons t ts)
  let ?data' = "data\<lparr>count := count data + 1\<rparr>"
  let ?this' = "this\<lparr>requests := AList.update identifier ?data' (requests this)\<rparr>"
  let ?r = "\<lparr>allowed = True, remaining = maxRequests this - (count data + 1),
             retryAfter = None, resetTime_res = None\<rparr>"
  from Cons.prems have step: "isAllowed this identifier t = (?r, ?this')"
    by (simp add: isAllowed_def)
  have 1: "map_of (requests ?this') identifier = Some ?data'"
    by (simp add: update_conv')
  have 2: "\<forall>t\<in>set ts. t - firstRequest ?data' \<le> windowMs ?this'"
    using Cons.prems(2) by simp
  have 3: "count ?data' + int (length ts) \<le> maxRequests ?this'"
    using Cons.prems(3) by simp
  note IH = Cons.IH [OF 1 2 3]
  have upt: "[0..<length (t # ts)] = 0 # map Suc [0..<length ts]"
    by (simp add: upt_conv_Cons map_Suc_upt del: upt_Suc)
  obtain rs final where rest: "isAllowed_calls ?this' identifier ts = (rs, final)"
    by (cases "isAllowed_calls ?this' identifier ts")
  have res: "isAllowed_calls this identifier (t # ts) = (?r # rs, final)"
    by (simp add: step rest)
  from IH [unfolded rest fst_conv snd_conv] have rs: "rs = map (\<lambda>i. \<lparr>allowed = True,
        remaining = maxRequests this - (count data + int (Suc i) + 1),
        retryAfter = None, resetTime_res = None\<rparr>) [0..<length ts]"
    and final: "map_of (requests final) identifier =
        Some (data\<lparr>count := count data + int (length (t # ts))\<rparr>)"
      "windowMs final = windowMs this" "maxRequests final = maxRequests this"
    by (simp_all add: algebra_simps)
  show ?case
    unfolding upt res by (simp add: rs final comp_def)
qed

lemma isAllowed_calls_from_opening:
  assumes "opens_window this identifier t0"
    and "int (length (t0 # ts)) \<le> maxRequests this"
    and "\<forall>t\<in>set ts. t - t0 \<le> windowMs this"
  shows "fst (isAllowed_calls this identifier (t0 # ts)) =
           map (\<lambda>i. \<lparr>allowed = True, remaining = maxRequests this - (int i + 1),
                      retryAfter = None, resetTime_res = None\<rparr>) [0..<length (t0 # ts)]"
    and "map_of (requests (snd (isAllowed_calls this identifier (t0 # ts)))) identifier =
           Some \<lparr>count = int (length (t0 # ts)), resetTime = t0, firstRequest = t0\<rparr>"
    and "windowMs (snd (isAllowed_calls this identifier (t0 # ts))) = windowMs this"
    and "maxRequests (snd (isAllowed_calls this identifier (t0 # ts))) = maxRequests this"
proof -
  let ?data = "\<lparr>count = 1, resetTime = t0, firstRequest = t0\<rparr>"
  let ?this' = "this\<lparr>requests := AList.update identifier ?data (requests this)\<rparr>"
  let ?r = "\<lparr>allowed = True, remaining = maxRequests this - 1,
             retryAfter = None, resetTime_res = None\<rparr>"
  have step: "isAllowed this identifier t0 = (?r, ?this')"
    by (rule isAllowed_opens_window [OF assms(1)])
  have 1: "map_of (requests ?this') identifier = Some ?data"
    by (simp add: update_conv')
  have 2: "\<forall>t\<in>set ts. t - firstRequest ?data \<le> windowMs ?this'"
    using assms(3) by simp
  have 3: "count ?data + int (length ts) \<le> maxRequests ?this'"
    using assms(2) by simp
  note later = isAllowed_calls_within_window [OF 1 2 3]
  obtain rs final where rest: "isAllowed_calls ?this' identifier ts = (rs, final)"
    by (cases "isAllowed_calls ?this' identifier ts")
  have res: "isAllowed_calls this identifier (t0 # ts) = (?r # rs, final)"
    by (simp add: step rest)
  from later [unfolded rest fst_conv snd_conv] have rs: "rs = map (\<lambda>i. \<lparr>allowed = True,
        remaining = maxRequests this - (int (Suc i) + 1),
        retryAfter = None, resetTime_res = None\<rparr>) [0..<length ts]"
    and final: "map_of (requests final) identifier =
        Some \<lparr>count = int (length (t0 # ts)), resetTime = t0, firstRequest = t0\<rparr>"
      "windowMs final = windowMs this" "maxRequests final = maxRequests this"
    by (simp_all add: algebra_simps)
  have upt: "[0..<length (t0 # ts)] = 0 # map Suc [0..<length ts]"
    by (simp add: upt_conv_Cons map_Suc_upt del: upt_Suc)
  show "fst (isAllowed_calls this identifier (t0 # ts)) =
           map (\<lambda>i. \<lparr>allowed = True, remaining = maxRequests this - (int i + 1),
                      retryAfter = None, resetTime_res = None\<rparr>) [0..<length (t0 # ts)]"
    unfolding upt res by (simp add: rs comp_def)
  show "map_of (requests (snd (isAllowed_calls this identifier (t0 # ts)))) identifier =
           Some \<lparr>count = int (length (t0 # ts)), resetTime = t0, firstRequest = t0\<rparr>"
    "windowMs (snd (isAllowed_calls this identifier (t0 # ts))) = windowMs this"
    "maxRequests (snd (isAllowed_calls this identifier (t0 # ts))) = maxRequests this"
    unfolding res by (simp_all add: final)
qed

subsection \<open>Heap frames\<close>

lemma new_RateLimiter_fresh:
  assumes "new_RateLimiter w m h = (B, h')"
  shows "requests B = next_addr h" "next_addr h' = next_addr h + 1"
    "a \<noteq> next_addr h \<Longrightarrow> cells h' a = cells h a" "cells h' (requests B) = []"
  using assms by (auto simp: new_RateLimiter_def new_Map_def)

lemma module_init_distinct:
  assumes "module_init h0 = (M, h)"
  shows "requests (generalLimiter M) \<noteq> requests (strictLimiter M)"
  using assms
  by (auto simp: module_init_def new_RateLimiter_def new_Map_def)

lemma isAllowed_obj_frame:
  "a \<noteq> requests A \<Longrightarrow> cells (snd (isAllowed_obj A identifier now h)) a = cells h a"
  by (simp add: isAllowed_obj_def split: prod.splits)

lemma cleanup_obj_frame:
  "a \<noteq> requests A \<Longrightarrow> cells (cleanup_obj A now h) a = cells h a"
  by (simp add: cleanup_obj_def)

lemma isAllowed_obj_calls_frame:
  "a \<noteq> requests A \<Longrightarrow> cells (isAllowed_obj_calls A identifier ts h) a = cells h a"
  by (induction ts arbitrary: h) (simp_all add: isAllowed_obj_frame)

lemma isAllowed_obj_result:
  "fst (isAllowed_obj B identifier now h) = fst (isAllowed (load h B) identifier now)"
  by (simp add: isAllowed_obj_def split: prod.splits)

lemma load_cong:
  "cells h' (requests B) = cells h (requests B) \<Longrightarrow> load h' B = load h B"
  by (simp add: load_def)

lemma rateLimiter_heap:
  "snd (snd (rateLimiter M req res now h)) =
     snd (isAllowed_obj (generalLimiter M) (client_identifier req) now h)"
  by (simp add: rateLimiter_def Let_def split: prod.splits)

lemma strictRateLimiter_heap:
  "snd (snd (strictRateLimiter M req res now h)) =
     (if req_method req \<notin> set [''POST'', ''PUT'', ''PATCH'', ''DELETE''] then h
      else snd (isAllowed_obj (strictLimiter M) (client_identifier req) now h))"
  by (simp add: strictRateLimiter_def Let_def split: prod.splits)

subsection \<open>The example states, evaluated\<close>

lemma strict_exhausted_eq:
  "strict_exhausted = \<lparr>windowMs = 60000, maxRequests = 10,
      requests = [(''1.2.3.4'', \<lparr>count = 10, resetTime = 0, firstRequest = 0\<rparr>)]\<rparr>"
  by (simp add: strict_exhausted_def strict_fresh_def isAllowed_def)

lemma short_one_eq:
  "short_one = \<lparr>windowMs = 1000, maxRequests = 1,
      requests = [(''a'', \<lparr>count = 1, resetTime = 0, firstRequest = 0\<rparr>)]\<rparr>"
  by (simp add: short_one_def short_fresh_def isAllowed_def)

lemma short_two_eq:
  "short_two = \<lparr>windowMs = 1000, maxRequests = 1,
      requests = [(''a'', \<lparr>count = 1, resetTime = 0, firstRequest = 0\<rparr>),
                  (''b'', \<lparr>count = 1, resetTime = 800, firstRequest = 800\<rparr>)]\<rparr>"
  by (simp add: short_two_def short_one_eq isAllowed_def)

lemma reachable_short_one: "reachable short_one"
  unfolding short_one_def
  by (intro reachable.called reachable.constructed) (simp add: short_fresh_def)

lemma reachable_short_two: "reachable short_two"
  unfolding short_two_def short_one_def
  by (intro reachable.called reachable.constructed) (simp add: short_fresh_def)

lemma loaded_module_eq:
  "loaded_module =
     (\<lparr>generalLimiter = \<lparr>windowMs = 900000, maxRequests = 100, requests = 0\<rparr>,
       strictLimiter = \<lparr>windowMs = 60000, maxRequests = 10, requests = 1\<rparr>\<rparr>,
      \<lparr>cells = (\<lambda>a. []), next_addr = 2\<rparr>)"
  by (simp add: loaded_module_def module_init_def new_RateLimiter_def new_Map_def empty_heap_def
      fun_eq_iff)

section \<open>Properties of one instance\<close>

text \<open>
  C1. For an identifier that is not in the store, \<open>isAllowed\<close> answers
  \<open>allowed = true\<close> with \<open>remaining = maxRequests - 1\<close> and stores the entry
  \<open>{count: 1, resetTime: now, firstRequest: now}\<close>, whatever \<open>maxRequests\<close> is
  (zero and negative values included): the cap is not consulted on this path.
\<close>

theorem first_request_admitted:
  assumes "map_of (requests this) identifier = None"
  shows "isAllowed this identifier now =
           (\<lparr>allowed = True, remaining = maxRequests this - 1,
             retryAfter = None, resetTime_res = None\<rparr>,
            this\<lparr>requests := AList.update identifier
               \<lparr>count = 1, resetTime = now, firstRequest = now\<rparr> (requests this)\<rparr>)
    \<and> map_of (requests (snd (isAllowed this identifier now))) identifier =
           Some \<lparr>count = 1, resetTime = now, firstRequest = now\<rparr>"
  using assms by (simp add: isAllowed_def update_conv')

theorem first_request_admitted_witness:
  "map_of (requests \<lparr>windowMs = 60000, maxRequests = 0, requests = ([] :: store)\<rparr>) ''1.2.3.4'' = None
   \<and> isAllowed \<lparr>windowMs = 60000, maxRequests = 0, requests = []\<rparr> ''1.2.3.4'' 5 =
       (\<lparr>allowed = True, remaining = - 1, retryAfter = None, resetTime_res = None\<rparr>,
        \<lparr>windowMs = 60000, maxRequests = 0,
         requests = [(''1.2.3.4'', \<lparr>count = 1, resetTime = 5, firstRequest = 5\<rparr>)]\<rparr>)"
  using first_request_admitted
    [of "\<lparr>windowMs = 60000, maxRequests = 0, requests = ([] :: store)\<rparr>" "''1.2.3.4''" 5]
  by simp

text \<open>
  C2. A call that starts a window for an identifier, followed by further calls for it
  that all fall within \<open>windowMs\<close> of that first call, at most \<open>maxRequests\<close> calls in
  all: every one of them is allowed, the call number \<open>i + 1\<close> returns
  \<open>remaining = maxRequests - (i + 1)\<close>, so each result is one less than the one before.
\<close>

theorem calls_up_to_cap_allowed:
  assumes "opens_window this identifier t0"
    and "int (length (t0 # ts)) \<le> maxRequests this"
    and "\<forall>t\<in>set ts. t - t0 \<le> windowMs this"
  shows "fst (isAllowed_calls this identifier (t0 # ts)) =
           map (\<lambda>i. \<lparr>allowed = True, remaining = maxRequests this - (int i + 1),
                      retryAfter = None, resetTime_res = None\<rparr>) [0..<length (t0 # ts)]
         \<and> (\<forall>i<length ts.
               remaining (fst (isAllowed_calls this identifier (t0 # ts)) ! Suc i) =
               remaining (fst (isAllowed_calls this identifier (t0 # ts)) ! i) - 1)"
proof -
  note eq = isAllowed_calls_from_opening(1) [OF assms]
  have "remaining (fst (isAllowed_calls this identifier (t0 # ts)) ! Suc i) =
        remaining (fst (isAllowed_calls this identifier (t0 # ts)) ! i) - 1"
    if "i < length ts" for i
  proof -
    from that have "Suc i < length [0..<length (t0 # ts)]" "i < length [0..<length (t0 # ts)]"
      by simp_all
    then show ?thesis
      unfolding eq by (simp only: nth_map) (simp add: nth_Cons' del: upt_Suc)
  qed
  with eq show ?thesis by blast
qed

theorem calls_up_to_cap_allowed_witness:
  "map allowed (fst (isAllowed_calls strict_fresh ''1.2.3.4''
       [0, 100, 200, 300, 400, 500, 600, 700, 800, 900])) =
     [True, True, True, True, True, True, True, True, True, True]
   \<and> map remaining (fst (isAllowed_calls strict_fresh ''1.2.3.4''
       [0, 100, 200, 300, 400, 500, 600, 700, 800, 900])) =
     [9, 8, 7, 6, 5, 4, 3, 2, 1, 0]"
proof -
  have o: "opens_window strict_fresh ''1.2.3.4'' 0"
    by (simp add: opens_window_def strict_fresh_def)
  have l: "int (length (0 # [100, 200, 300, 400, 500, 600, 700, 800, 900 :: int]))
             \<le> maxRequests strict_fresh"
    by (simp add: strict_fresh_def)
  have w: "\<forall>t\<in>set [100, 200, 300, 400, 500, 600, 700, 800, 900]. t - 0 \<le> windowMs strict_fresh"
    by (simp add: strict_fresh_def)
  from calls_up_to_cap_allowed [OF o l w] show ?thesis
    by (simp add: strict_fresh_def upt_conv_Cons)
qed

text \<open>
  C3, as amended. For an entry with \<open>count \<ge> maxRequests\<close> whose window is not over
  (\<open>now - firstRequest \<le> windowMs\<close>), \<open>isAllowed\<close> changes nothing and answers
  \<open>allowed = false\<close>, \<open>remaining = 0\<close>,
  \<open>retryAfter = ceil((windowMs - (now - firstRequest)) / 1000)\<close> and
  \<open>resetTime = firstRequest + windowMs\<close>. The \<open>retryAfter\<close> is never negative, and it is
  positive exactly when \<open>now - firstRequest < windowMs\<close>: at the last instant of the window
  it is 0. For \<open>maxRequests \<ge> 1\<close>, the call after \<open>maxRequests\<close> calls of one window
  (the first of which started it) is denied in this way.
\<close>

theorem denied_when_cap_reached:
  "(map_of (requests this) identifier = Some data \<and> count data \<ge> maxRequests this
      \<and> now - firstRequest data \<le> windowMs this \<longrightarrow>
      isAllowed this identifier now =
        (\<lparr>allowed = False, remaining = 0,
          retryAfter = Some \<lceil>real_of_int (windowMs this - (now - firstRequest data)) / 1000\<rceil>,
          resetTime_res = Some (firstRequest data + windowMs this)\<rparr>, this)
      \<and> 0 \<le> \<lceil>real_of_int (windowMs this - (now - firstRequest data)) / 1000\<rceil>
      \<and> (0 < \<lceil>real_of_int (windowMs this - (now - firstRequest data)) / 1000\<rceil>
            \<longleftrightarrow> now - firstRequest data < windowMs this))
   \<and> (opens_window start identifier t0 \<and> int (length (t0 # ts)) = maxRequests start
      \<and> (\<forall>t\<in>set ts. t - t0 \<le> windowMs start) \<and> t' - t0 \<le> windowMs start \<longrightarrow>
      fst (isAllowed (snd (isAllowed_calls start identifier (t0 # ts))) identifier t') =
        \<lparr>allowed = False, remaining = 0,
         retryAfter = Some \<lceil>real_of_int (windowMs start - (t' - t0)) / 1000\<rceil>,
         resetTime_res = Some (t0 + windowMs start)\<rparr>
      \<and> (0 < \<lceil>real_of_int (windowMs start - (t' - t0)) / 1000\<rceil> \<longleftrightarrow> t' - t0 < windowMs start))"
proof (intro conjI impI)
  assume a: "map_of (requests this) identifier = Some data \<and> count data \<ge> maxRequests this
      \<and> now - firstRequest data \<le> windowMs this"
  then show "isAllowed this identifier now =
        (\<lparr>allowed = False, remaining = 0,
          retryAfter = Some \<lceil>real_of_int (windowMs this - (now - firstRequest data)) / 1000\<rceil>,
          resetTime_res = Some (firstRequest data + windowMs this)\<rparr>, this)"
    by (simp add: isAllowed_denied)
  from a show "0 \<le> \<lceil>real_of_int (windowMs this - (now - firstRequest data)) / 1000\<rceil>"
    by (intro retry_sign(1)) simp
  show "0 < \<lceil>real_of_int (windowMs this - (now - firstRequest data)) / 1000\<rceil>
            \<longleftrightarrow> now - firstRequest data < windowMs this"
    unfolding retry_sign(2) by linarith
next
  assume b: "opens_window start identifier t0 \<and> int (length (t0 # ts)) = maxRequests start
      \<and> (\<forall>t\<in>set ts. t - t0 \<le> windowMs start) \<and> t' - t0 \<le> windowMs start"
  let ?final = "snd (isAllowed_calls start identifier (t0 # ts))"
  let ?data = "\<lparr>count = int (length (t0 # ts)), resetTime = t0, firstRequest = t0\<rparr>"
  from b have o: "opens_window start identifier t0"
    and l: "int (length (t0 # ts)) \<le> maxRequests start"
    and w: "\<forall>t\<in>set ts. t - t0 \<le> windowMs start"
    by simp_all
  note run = isAllowed_calls_from_opening(2-4) [OF o l w]
  have 1: "map_of (requests ?final) identifier = Some ?data" by (rule run(1))
  have 2: "count ?data \<ge> maxRequests ?final" using b by (simp only: run) simp
  have 3: "t' - firstRequest ?data \<le> windowMs ?final" using b by (simp only: run) simp
  show "fst (isAllowed ?final identifier t') =
        \<lparr>allowed = False, remaining = 0,
         retryAfter = Some \<lceil>real_of_int (windowMs start - (t' - t0)) / 1000\<rceil>,
         resetTime_res = Some (t0 + windowMs start)\<rparr>"
    unfolding isAllowed_denied [OF 1 2 3] by (simp only: run) simp
  show "0 < \<lceil>real_of_int (windowMs start - (t' - t0)) / 1000\<rceil> \<longleftrightarrow> t' - t0 < windowMs start"
    unfolding retry_sign(2) by linarith
qed

theorem denied_when_cap_reached_witness:
  "isAllowed strict_exhausted ''1.2.3.4'' 1000 =
     (\<lparr>allowed = False, remaining = 0, retryAfter = Some 59, resetTime_res = Some 60000\<rparr>,
      strict_exhausted)
   \<and> fst (isAllowed (snd (isAllowed_calls strict_fresh ''1.2.3.4''
        [0, 100, 200, 300, 400, 500, 600, 700, 800, 900])) ''1.2.3.4'' 1000) =
      \<lparr>allowed = False, remaining = 0, retryAfter = Some 59, resetTime_res = Some 60000\<rparr>"
proof -
  let ?data = "\<lparr>count = 10, resetTime = 0, firstRequest = 0\<rparr>"
  have 1: "map_of (requests strict_exhausted) ''1.2.3.4'' = Some ?data
      \<and> count ?data \<ge> maxRequests strict_exhausted
      \<and> 1000 - firstRequest ?data \<le> windowMs strict_exhausted"
    by (simp add: strict_exhausted_eq)
  have 2: "opens_window strict_fresh ''1.2.3.4'' 0
      \<and> int (length (0 # [100, 200, 300, 400, 500, 600, 700, 800, 900 :: int]))
          = maxRequests strict_fresh
      \<and> (\<forall>t\<in>set [100, 200, 300, 400, 500, 600, 700, 800, 900]. t - 0 \<le> windowMs strict_fresh)
      \<and> 1000 - 0 \<le> windowMs strict_fresh"
    by (simp add: opens_window_def strict_fresh_def)
  note inst = denied_when_cap_reached [of strict_exhausted "''1.2.3.4''" ?data 1000
      strict_fresh 0 "[100, 200, 300, 400, 500, 600, 700, 800, 900]" 1000]
  from inst 1 have a: "isAllowed strict_exhausted ''1.2.3.4'' 1000 =
     (\<lparr>allowed = False, remaining = 0, retryAfter = Some 59, resetTime_res = Some 60000\<rparr>,
      strict_exhausted)"
    by (simp add: strict_exhausted_eq)
  from inst 2 have b: "fst (isAllowed (snd (isAllowed_calls strict_fresh ''1.2.3.4''
        [0, 100, 200, 300, 400, 500, 600, 700, 800, 900])) ''1.2.3.4'' 1000) =
      \<lparr>allowed = False, remaining = 0, retryAfter = Some 59, resetTime_res = Some 60000\<rparr>"
    by (simp add: strict_fresh_def)
  from a b show ?thesis by simp
qed

text \<open>
  The claim as first stated asks for a positive \<open>retryAfter\<close> on every denial. On the
  one-second limiter of capacity one, the entry written at time 0 is full and still live
  at time 1000, and the call at that instant is denied with \<open>retryAfter = 0\<close>. With
  \<open>maxRequests = 0\<close> the call number \<open>maxRequests + 1\<close> is the first one, which is allowed.
\<close>

theorem positive_retry_counterexample:
  "map_of (requests short_one) ''a'' = Some \<lparr>count = 1, resetTime = 0, firstRequest = 0\<rparr>
   \<and> maxRequests short_one \<le> count \<lparr>count = 1, resetTime = 0, firstRequest = 0\<rparr>
   \<and> 1000 - firstRequest \<lparr>count = 1, resetTime = 0, firstRequest = 0\<rparr> \<le> windowMs short_one
   \<and> fst (isAllowed short_one ''a'' 1000) =
       \<lparr>allowed = False, remaining = 0, retryAfter = Some 0, resetTime_res = Some 1000\<rparr>
   \<and> fst (isAllowed \<lparr>windowMs = 1000, maxRequests = 0, requests = []\<rparr> ''a'' 0) =
       \<lparr>allowed = True, remaining = - 1, retryAfter = None, resetTime_res = None\<rparr>"
  by (simp add: short_one_eq isAllowed_def)

text \<open>
  C4. For an identifier with an entry, a call at a time strictly after
  \<open>firstRequest + windowMs\<close> replaces the entry by
  \<open>{count: 1, resetTime: now, firstRequest: now}\<close> and answers \<open>allowed = true\<close> with
  \<open>remaining = maxRequests - 1\<close>; the old count is not read on this path, so it does not
  matter whether earlier calls were denied.
\<close>

theorem expired_window_resets:
  assumes "map_of (requests this) identifier = Some data"
    and "now > firstRequest data + windowMs this"
  shows "isAllowed this identifier now =
           (\<lparr>allowed = True, remaining = maxRequests this - 1,
             retryAfter = None, resetTime_res = None\<rparr>,
            this\<lparr>requests := AList.update identifier
               \<lparr>count = 1, resetTime = now, firstRequest = now\<rparr> (requests this)\<rparr>)
         \<and> map_of (requests (snd (isAllowed this identifier now))) identifier =
             Some \<lparr>count = 1, resetTime = now, firstRequest = now\<rparr>"
proof -
  from assms(2) have "now - firstRequest data > windowMs this" by simp
  with assms(1) show ?thesis by (simp add: isAllowed_def update_conv')
qed

theorem expired_window_resets_witness:
  "isAllowed strict_exhausted ''1.2.3.4'' 61950 =
     (\<lparr>allowed = True, remaining = 9, retryAfter = None, resetTime_res = None\<rparr>,
      \<lparr>windowMs = 60000, maxRequests = 10,
       requests = [(''1.2.3.4'', \<lparr>count = 1, resetTime = 61950, firstRequest = 61950\<rparr>)]\<rparr>)"
proof -
  let ?data = "\<lparr>count = 10, resetTime = 0, firstRequest = 0\<rparr>"
  have 1: "map_of (requests strict_exhausted) ''1.2.3.4'' = Some ?data"
    by (simp add: strict_exhausted_eq)
  have 2: "61950 > firstRequest ?data + windowMs strict_exhausted"
    by (simp add: strict_exhausted_eq)
  from expired_window_resets [OF 1 2] show ?thesis
    by (simp add: strict_exhausted_eq)
qed

text \<open>
  C5, as amended. In every reachable state, \<open>cleanup\<close> at time \<open>now\<close> removes exactly
  the entries whose window is over, that is those with \<open>now - windowStart > windowMs\<close>
  (\<open>resetTime\<close> and \<open>firstRequest\<close> both hold the window start); every other entry stays
  as it is and in its place, and no entry appears.
\<close>

theorem cleanup_removes_expired:
  assumes "reachable this"
  shows "requests (cleanup this now) =
           filter (\<lambda>(key, data). \<not> now - resetTime data > windowMs this) (requests this)
         \<and> (map_of (requests this) key = None \<longrightarrow> map_of (requests (cleanup this now)) key = None)
         \<and> (map_of (requests this) key = Some data \<longrightarrow>
              resetTime data = firstRequest data
              \<and> (map_of (requests (cleanup this now)) key = None
                    \<longleftrightarrow> now - firstRequest data > windowMs this)
              \<and> (map_of (requests (cleanup this now)) key = Some data
                    \<longleftrightarrow> now - firstRequest data \<le> windowMs this))"
proof (intro conjI impI)
  show "requests (cleanup this now) =
           filter (\<lambda>(key, data). \<not> now - resetTime data > windowMs this) (requests this)"
    by (rule cleanup_requests [OF assms])
next
  assume "map_of (requests this) key = None"
  then show "map_of (requests (cleanup this now)) key = None"
    by (simp add: cleanup_lookup [OF assms])
next
  assume s: "map_of (requests this) key = Some data"
  then have "(key, data) \<in> set (requests this)" by (rule map_of_SomeD)
  then show "resetTime data = firstRequest data" by (rule reachable_times [OF assms])
  from s show "map_of (requests (cleanup this now)) key = None
                    \<longleftrightarrow> now - firstRequest data > windowMs this"
    by (simp add: cleanup_lookup [OF assms])
  from s show "map_of (requests (cleanup this now)) key = Some data
                    \<longleftrightarrow> now - firstRequest data \<le> windowMs this"
    by (simp add: cleanup_lookup [OF assms])
qed

theorem cleanup_removes_expired_witness:
  "requests (cleanup short_two 1500) =
     [(''b'', \<lparr>count = 1, resetTime = 800, firstRequest = 800\<rparr>)]
   \<and> map_of (requests (cleanup short_two 1500)) ''a'' = None
   \<and> map_of (requests (cleanup short_two 1500)) ''b'' =
       Some \<lparr>count = 1, resetTime = 800, firstRequest = 800\<rparr>
   \<and> map_of (requests (cleanup short_two 1000)) ''a'' =
       Some \<lparr>count = 1, resetTime = 0, firstRequest = 0\<rparr>
   \<and> map_of (requests (cleanup short_two 1500)) ''c'' = None"
proof -
  note r = reachable_short_two
  have a: "map_of (requests short_two) ''a'' = Some \<lparr>count = 1, resetTime = 0, firstRequest = 0\<rparr>"
    and b: "map_of (requests short_two) ''b'' = Some \<lparr>count = 1, resetTime = 800, firstRequest = 800\<rparr>"
    and c: "map_of (requests short_two) ''c'' = None"
    by (simp_all add: short_two_eq)
  from cleanup_removes_expired [OF r, of 1500 "''a''" "\<lparr>count = 1, resetTime = 0, firstRequest = 0\<rparr>"] a
  have 1: "requests (cleanup short_two 1500) =
     [(''b'', \<lparr>count = 1, resetTime = 800, firstRequest = 800\<rparr>)]"
    "map_of (requests (cleanup short_two 1500)) ''a'' = None"
    by (simp_all add: short_two_eq)
  from cleanup_removes_expired [OF r, of 1500 "''b''" "\<lparr>count = 1, resetTime = 800, firstRequest = 800\<rparr>"] b
  have 2: "map_of (requests (cleanup short_two 1500)) ''b'' =
       Some \<lparr>count = 1, resetTime = 800, firstRequest = 800\<rparr>"
    by (simp add: short_two_eq)
  from cleanup_removes_expired [OF r, of 1000 "''a''" "\<lparr>count = 1, resetTime = 0, firstRequest = 0\<rparr>"] a
  have 3: "map_of (requests (cleanup short_two 1000)) ''a'' =
       Some \<lparr>count = 1, resetTime = 0, firstRequest = 0\<rparr>"
    by (simp add: short_two_eq)
  from cleanup_removes_expired [OF r, of 1500 "''c''"] c
  have 4: "map_of (requests (cleanup short_two 1500)) ''c'' = None"
    by (simp add: short_two_eq)
  from 1 2 3 4 show ?thesis by simp
qed

text \<open>
  The claim as first stated lets an entry go only when \<open>now - windowStart\<close> exceeds twice
  \<open>windowMs\<close>. On the one-second limiter an entry written at time 0 is removed by the sweep
  at time 1500, one and a half windows after its start.
\<close>

theorem cleanup_two_windows_counterexample:
  "map_of (requests short_one) ''a'' = Some \<lparr>count = 1, resetTime = 0, firstRequest = 0\<rparr>
   \<and> \<not> 1500 - firstRequest \<lparr>count = 1, resetTime = 0, firstRequest = 0\<rparr> > 2 * windowMs short_one
   \<and> map_of (requests (cleanup short_one 1500)) ''a'' = None"
  by (simp add: short_one_eq cleanup_def)

text \<open>
  C6. In every reachable state, \<open>cleanup\<close> keeps every entry whose window is not over
  (\<open>now - firstRequest \<le> windowMs\<close>), unchanged; and once \<open>cleanup\<close> has removed the
  entry of an identifier, the next \<open>isAllowed\<close> for it answers as for an identifier never
  seen (\<open>allowed = true\<close>, \<open>remaining = maxRequests - 1\<close>, a new entry with
  \<open>count = 1\<close>), the same result a newly constructed instance of that configuration gives.
\<close>

theorem cleanup_keeps_live_entries:
  assumes "reachable this"
  shows "(map_of (requests this) identifier = Some data
            \<and> now - firstRequest data \<le> windowMs this \<longrightarrow>
            map_of (requests (cleanup this now)) identifier = Some data)
         \<and> (map_of (requests this) identifier = Some data
            \<and> map_of (requests (cleanup this now)) identifier = None \<longrightarrow>
            isAllowed (cleanup this now) identifier later =
              (\<lparr>allowed = True, remaining = maxRequests this - 1,
                retryAfter = None, resetTime_res = None\<rparr>,
               (cleanup this now)\<lparr>requests := AList.update identifier
                  \<lparr>count = 1, resetTime = later, firstRequest = later\<rparr>
                  (requests (cleanup this now))\<rparr>)
            \<and> map_of (requests (snd (isAllowed (cleanup this now) identifier later))) identifier =
                Some \<lparr>count = 1, resetTime = later, firstRequest = later\<rparr>
            \<and> fst (isAllowed (cleanup this now) identifier later) =
                fst (isAllowed (this\<lparr>requests := []\<rparr>) identifier later))"
proof (intro conjI impI)
  assume "map_of (requests this) identifier = Some data
            \<and> now - firstRequest data \<le> windowMs this"
  then show "map_of (requests (cleanup this now)) identifier = Some data"
    by (simp add: cleanup_lookup [OF assms])
next
  assume a: "map_of (requests this) identifier = Some data
            \<and> map_of (requests (cleanup this now)) identifier = None"
  then have none: "map_of (requests (cleanup this now)) identifier = None" by simp
  then show "isAllowed (cleanup this now) identifier later =
              (\<lparr>allowed = True, remaining = maxRequests this - 1,
                retryAfter = None, resetTime_res = None\<rparr>,
               (cleanup this now)\<lparr>requests := AList.update identifier
                  \<lparr>count = 1, resetTime = later, firstRequest = later\<rparr>
                  (requests (cleanup this now))\<rparr>)"
    by (simp add: isAllowed_def cleanup_config)
  from none show "map_of (requests (snd (isAllowed (cleanup this now) identifier later))) identifier =
                Some \<lparr>count = 1, resetTime = later, firstRequest = later\<rparr>"
    by (simp add: isAllowed_def update_conv')
  from none show "fst (isAllowed (cleanup this now) identifier later) =
                fst (isAllowed (this\<lparr>requests := []\<rparr>) identifier later)"
    by (simp add: isAllowed_def cleanup_config)
qed

theorem cleanup_keeps_live_entries_witness:
  "map_of (requests (cleanup short_two 1500)) ''b'' =
     Some \<lparr>count = 1, resetTime = 800, firstRequest = 800\<rparr>
   \<and> map_of (requests (cleanup short_two 1500)) ''a'' = None
   \<and> isAllowed (cleanup short_two 1500) ''a'' 1600 =
       (\<lparr>allowed = True, remaining = 0, retryAfter = None, resetTime_res = None\<rparr>,
        \<lparr>windowMs = 1000, maxRequests = 1,
         requests = [(''b'', \<lparr>count = 1, resetTime = 800, firstRequest = 800\<rparr>),
                     (''a'', \<lparr>count = 1, resetTime = 1600, firstRequest = 1600\<rparr>)]\<rparr>)
   \<and> fst (isAllowed (cleanup short_two 1500) ''a'' 1600) = fst (isAllowed short_fresh ''a'' 1600)"
proof -
  have rm: "map_of (requests (cleanup short_two 1500)) ''a'' = None"
    by (simp add: short_two_eq cleanup_def)
  have a: "map_of (requests short_two) ''a'' = Some \<lparr>count = 1, resetTime = 0, firstRequest = 0\<rparr>
      \<and> map_of (requests (cleanup short_two 1500)) ''a'' = None"
    using rm by (simp add: short_two_eq)
  have b: "map_of (requests short_two) ''b'' = Some \<lparr>count = 1, resetTime = 800, firstRequest = 800\<rparr>
      \<and> 1500 - firstRequest \<lparr>count = 1, resetTime = 800, firstRequest = 800\<rparr> \<le> windowMs short_two"
    by (simp add: short_two_eq)
  from cleanup_keeps_live_entries [OF reachable_short_two,
      of "''b''" "\<lparr>count = 1, resetTime = 800, firstRequest = 800\<rparr>" 1500] b
  have 1: "map_of (requests (cleanup short_two 1500)) ''b'' =
     Some \<lparr>count = 1, resetTime = 800, firstRequest = 800\<rparr>"
    by simp
  from cleanup_keeps_live_entries [OF reachable_short_two,
      of "''a''" "\<lparr>count = 1, resetTime = 0, firstRequest = 0\<rparr>" 1500 1600] a
  have 2: "isAllowed (cleanup short_two 1500) ''a'' 1600 =
       (\<lparr>allowed = True, remaining = 0, retryAfter = None, resetTime_res = None\<rparr>,
        \<lparr>windowMs = 1000, maxRequests = 1,
         requests = [(''b'', \<lparr>count = 1, resetTime = 800, firstRequest = 800\<rparr>),
                     (''a'', \<lparr>count = 1, resetTime = 1600, firstRequest = 1600\<rparr>)]\<rparr>)"
    "fst (isAllowed (cleanup short_two 1500) ''a'' 1600) = fst (isAllowed short_fresh ''a'' 1600)"
    by (simp_all add: short_two_eq cleanup_def short_fresh_def isAllowed_def)
  from 1 rm 2 show ?thesis by simp
qed

text \<open>
  C7. A call that is denied leaves the instance as it was: the entry of the identifier
  keeps its count and its time stamps, and no other entry changes.
\<close>

theorem denied_call_leaves_store:
  assumes "\<not> allowed (fst (isAllowed this identifier now))"
  shows "snd (isAllowed this identifier now) = this"
  using assms by (auto simp: isAllowed_def split: option.splits if_splits)

theorem denied_call_leaves_store_witness:
  "\<not> allowed (fst (isAllowed strict_exhausted ''1.2.3.4'' 1000))
   \<and> snd (isAllowed strict_exhausted ''1.2.3.4'' 1000) =
       \<lparr>windowMs = 60000, maxRequests = 10,
        requests = [(''1.2.3.4'', \<lparr>count = 10, resetTime = 0, firstRequest = 0\<rparr>)]\<rparr>"
proof -
  have d: "\<not> allowed (fst (isAllowed strict_exhausted ''1.2.3.4'' 1000))"
    by (simp add: strict_exhausted_eq isAllowed_def)
  from denied_call_leaves_store [OF d] d show ?thesis
    by (simp add: strict_exhausted_eq)
qed

text \<open>
  C10. For \<open>maxRequests \<ge> 1\<close>, every entry of every reachable state has
  \<open>1 \<le> count \<le> maxRequests\<close>, and the bound is kept by every \<open>isAllowed\<close> call and by
  every \<open>cleanup\<close> sweep.
\<close>

theorem counts_stay_within_cap:
  assumes "1 \<le> maxRequests this"
  shows "(reachable this \<longrightarrow>
            (\<forall>(key, data)\<in>set (requests this). 1 \<le> count data \<and> count data \<le> maxRequests this))
         \<and> (count_bounded this \<longrightarrow>
              count_bounded (snd (isAllowed this identifier now))
              \<and> count_bounded (cleanup this now))"
proof (intro conjI impI)
  assume "reachable this"
  then have "count_bounded this" using assms by (rule reachable_count_bounded)
  then show "\<forall>(key, data)\<in>set (requests this). 1 \<le> count data \<and> count data \<le> maxRequests this"
    by (simp add: count_bounded_def list_all_iff)
next
  assume c: "count_bounded this"
  show "count_bounded (snd (isAllowed this identifier now))"
    using assms c by (rule isAllowed_count_bounded)
  show "count_bounded (cleanup this now)"
    using c by (rule cleanup_count_bounded)
qed

theorem counts_stay_within_cap_witness:
  "reachable strict_exhausted
   \<and> count_bounded strict_exhausted
   \<and> count_bounded (snd (isAllowed strict_exhausted ''1.2.3.4'' 1000))
   \<and> count_bounded (snd (isAllowed strict_exhausted ''5.6.7.8'' 1000))
   \<and> count_bounded (cleanup strict_exhausted 70000)
   \<and> map (\<lambda>(key, data). count data) (requests strict_exhausted) = [10]"
proof -
  have m: "1 \<le> maxRequests strict_exhausted" by (simp add: strict_exhausted_eq)
  have r: "reachable strict_exhausted"
    unfolding strict_exhausted_def
    by (simp add: Let_def split_beta isAllowed_calls.simps)
       (intro reachable.called reachable.constructed, simp add: strict_fresh_def)
  from counts_stay_within_cap [OF m, of "''1.2.3.4''" 1000] r
  have 1: "count_bounded strict_exhausted"
    by (simp add: count_bounded_def list_all_iff)
  from counts_stay_within_cap [OF m, of "''1.2.3.4''" 1000]
    counts_stay_within_cap [OF m, of "''1.2.3.4''" 70000] 1
  have 2: "count_bounded (snd (isAllowed strict_exhausted ''1.2.3.4'' 1000))"
    "count_bounded (cleanup strict_exhausted 70000)"
    by simp_all
  from counts_stay_within_cap [OF m, of "''5.6.7.8''" 1000] 1
  have 3: "count_bounded (snd (isAllowed strict_exhausted ''5.6.7.8'' 1000))"
    by simp
  have 4: "map (\<lambda>(key, data). count data) (requests strict_exhausted) = [10]"
    by (simp add: strict_exhausted_eq)
  from r 1 2 3 4 show ?thesis by simp
qed

section \<open>Properties of the module\<close>

text \<open>
  C8. Instances do not share counters. The general and the strict limiter of the module
  hold different maps, and neither middleware writes to the other one's map; a limiter
  constructed later holds a map different from every map allocated before, and its
  construction changes none of them; and for two instances with different maps, a call or
  a sweep on one, or any number of calls on it, leaves the other one's map unchanged, so
  the other one's next answer for any identifier is what it would have been.
\<close>

theorem instances_do_not_share_counters:
  "(module_init h0 = (M, h1) \<longrightarrow>
      requests (generalLimiter M) \<noteq> requests (strictLimiter M)
      \<and> cells (snd (snd (rateLimiter M req res now h))) (requests (strictLimiter M)) =
          cells h (requests (strictLimiter M))
      \<and> cells (snd (snd (strictRateLimiter M req res now h))) (requests (generalLimiter M)) =
          cells h (requests (generalLimiter M)))
   \<and> (requests A < next_addr h \<and> new_RateLimiter w m h = (B, h') \<longrightarrow>
      requests B \<noteq> requests A \<and> cells h' (requests A) = cells h (requests A))
   \<and> (requests A \<noteq> requests B \<longrightarrow>
      cells (snd (isAllowed_obj A identifier now h)) (requests B) = cells h (requests B)
      \<and> cells (cleanup_obj A now h) (requests B) = cells h (requests B)
      \<and> cells (isAllowed_obj_calls A identifier ts h) (requests B) = cells h (requests B)
      \<and> fst (isAllowed_obj B identifier' later (isAllowed_obj_calls A identifier ts h)) =
          fst (isAllowed_obj B identifier' later h))"
proof (intro conjI impI)
  assume init: "module_init h0 = (M, h1)"
  then show ne: "requests (generalLimiter M) \<noteq> requests (strictLimiter M)"
    by (rule module_init_distinct)
  from ne show "cells (snd (snd (rateLimiter M req res now h))) (requests (strictLimiter M)) =
          cells h (requests (strictLimiter M))"
    unfolding rateLimiter_heap by (intro isAllowed_obj_frame) simp
  from ne show "cells (snd (snd (strictRateLimiter M req res now h))) (requests (generalLimiter M)) =
          cells h (requests (generalLimiter M))"
    unfolding strictRateLimiter_heap by (simp add: isAllowed_obj_frame)
next
  assume a: "requests A < next_addr h \<and> new_RateLimiter w m h = (B, h')"
  then have new: "new_RateLimiter w m h = (B, h')" by simp
  have B: "requests B = next_addr h" by (rule new_RateLimiter_fresh(1) [OF new])
  with a show "requests B \<noteq> requests A" by simp
  from a have "requests A \<noteq> next_addr h" by simp
  then show "cells h' (requests A) = cells h (requests A)"
    by (rule new_RateLimiter_fresh(3) [OF new])
next
  assume ne: "requests A \<noteq> requests B"
  then have ne': "requests B \<noteq> requests A" by simp
  show "cells (snd (isAllowed_obj A identifier now h)) (requests B) = cells h (requests B)"
    using ne' by (rule isAllowed_obj_frame)
  show "cells (cleanup_obj A now h) (requests B) = cells h (requests B)"
    using ne' by (rule cleanup_obj_frame)
  show c: "cells (isAllowed_obj_calls A identifier ts h) (requests B) = cells h (requests B)"
    using ne' by (rule isAllowed_obj_calls_frame)
  show "fst (isAllowed_obj B identifier' later (isAllowed_obj_calls A identifier ts h)) =
          fst (isAllowed_obj B identifier' later h)"
    unfolding isAllowed_obj_result load_cong [OF c] ..
qed

theorem instances_do_not_share_counters_witness:
  "requests (generalLimiter (fst loaded_module)) = 0
   \<and> requests (strictLimiter (fst loaded_module)) = 1
   \<and> fst (isAllowed_obj (strictLimiter (fst loaded_module)) ''1.2.3.4'' 1000
        (isAllowed_obj_calls (strictLimiter (fst loaded_module)) ''1.2.3.4''
           [0, 100, 200, 300, 400, 500, 600, 700, 800, 900] (snd loaded_module))) =
       \<lparr>allowed = False, remaining = 0, retryAfter = Some 59, resetTime_res = Some 60000\<rparr>
   \<and> fst (isAllowed_obj (generalLimiter (fst loaded_module)) ''1.2.3.4'' 1000
        (isAllowed_obj_calls (strictLimiter (fst loaded_module)) ''1.2.3.4''
           [0, 100, 200, 300, 400, 500, 600, 700, 800, 900] (snd loaded_module))) =
       \<lparr>allowed = True, remaining = 99, retryAfter = None, resetTime_res = None\<rparr>
   \<and> cells (isAllowed_obj_calls (strictLimiter (fst loaded_module)) ''1.2.3.4''
           [0, 100, 200, 300, 400, 500, 600, 700, 800, 900] (snd loaded_module)) 0 = []"
proof -
  let ?G = "generalLimiter (fst loaded_module)"
  let ?S = "strictLimiter (fst loaded_module)"
  let ?h = "snd loaded_module"
  let ?ts = "[0, 100, 200, 300, 400, 500, 600, 700, 800, 900 :: int]"
  have init: "module_init empty_heap = (fst loaded_module, snd loaded_module)"
    by (simp add: loaded_module_def)
  note sep = instances_do_not_share_counters
    [of empty_heap "fst loaded_module" "snd loaded_module" get_request "[]" 0 ?h ?S None None ?G ?h
        "''1.2.3.4''" ?ts "''1.2.3.4''" 1000]
  from sep init have "requests ?G \<noteq> requests ?S" by blast
  then have ne: "requests ?S \<noteq> requests ?G" by (rule not_sym)
  with sep have
    frame: "cells (isAllowed_obj_calls ?S ''1.2.3.4'' ?ts ?h) (requests ?G) = cells ?h (requests ?G)"
    and same: "fst (isAllowed_obj ?G ''1.2.3.4'' 1000 (isAllowed_obj_calls ?S ''1.2.3.4'' ?ts ?h)) =
      fst (isAllowed_obj ?G ''1.2.3.4'' 1000 ?h)"
    by blast+
  have G: "requests ?G = 0" and S: "requests ?S = 1"
    by (simp_all add: loaded_module_eq)
  have fresh: "fst (isAllowed_obj ?G ''1.2.3.4'' 1000 ?h) =
      \<lparr>allowed = True, remaining = 99, retryAfter = None, resetTime_res = None\<rparr>"
    by (simp add: loaded_module_eq isAllowed_obj_def load_def isAllowed_def)
  have denied: "fst (isAllowed_obj ?S ''1.2.3.4'' 1000 (isAllowed_obj_calls ?S ''1.2.3.4'' ?ts ?h)) =
       \<lparr>allowed = False, remaining = 0, retryAfter = Some 59, resetTime_res = Some 60000\<rparr>"
    by (simp add: loaded_module_eq isAllowed_obj_def load_def isAllowed_def)
  from frame have untouched: "cells (isAllowed_obj_calls ?S ''1.2.3.4'' ?ts ?h) 0 = []"
    by (simp add: loaded_module_eq)
  from G S denied same fresh untouched show ?thesis by simp
qed

text \<open>
  C9. For a request whose method is none of \<open>POST\<close>, \<open>PUT\<close>, \<open>PATCH\<close>,
  \<open>DELETE\<close>, the strict middleware calls \<open>next()\<close> at once: no header is set and the
  heap, with the strict limiter's map in it, is unchanged, so no entry is created, no count
  is incremented and nothing is denied.
\<close>

theorem strict_limiter_skips_reads:
  assumes "req_method req \<notin> {''POST'', ''PUT'', ''PATCH'', ''DELETE''}"
  shows "strictRateLimiter M req res now h = (Next, res, h)"
  using assms by (simp add: strictRateLimiter_def)

theorem strict_limiter_skips_reads_witness:
  "req_method get_request \<noteq> ''POST'' \<and> req_method get_request \<noteq> ''PUT''
   \<and> req_method get_request \<noteq> ''PATCH'' \<and> req_method get_request \<noteq> ''DELETE''
   \<and> strictRateLimiter (fst loaded_module) get_request [] 5 (snd loaded_module) =
       (Next, [], snd loaded_module)
   \<and> cells (snd loaded_module) (requests (strictLimiter (fst loaded_module))) = []"
proof -
  have g: "req_method get_request \<notin> {''POST'', ''PUT'', ''PATCH'', ''DELETE''}"
    by (simp add: get_request_def)
  from strict_limiter_skips_reads [OF g, of "fst loaded_module" "[]" 5 "snd loaded_module"] g
  show ?thesis
    by (simp add: loaded_module_def module_init_def new_RateLimiter_def new_Map_def empty_heap_def)
qed

end
